theory Spec2Isabelle
  imports Complex_Main "HOL-Library.Char_ord" "HOL-Library.List_Lexorder" "HOL-Library.Multiset"
begin

section \<open>Data model of the uptime monitor (main.go)\<close>

text \<open>
  The two configuration structs of main.go. Go's \<open>int\<close> fields are kept as integers;
  no arithmetic is done on \<open>SMTPPort\<close>.
\<close>

record EmailConfig =
  SMTPHost :: string
  SMTPPort :: int
  Sender :: string
  Password :: string
  Recipient :: string

record Config =
  Websites :: "string list"
  Email :: EmailConfig

text \<open>
  The result of \<open>http.Get(url)\<close>: either a transport error (\<open>err != nil\<close>, carrying the
  error text) or a response with its \<open>StatusCode\<close> and its \<open>Status\<close> line.
\<close>

datatype http_result = GetError string | Response int string

text \<open>
  The process state that the claims talk about: the global \<open>statusMap\<close>
  (a Go \<open>map[string]string\<close>) and the sequence of calls of \<open>sendEmail\<close> made so far,
  each recorded with its two arguments. The SMTP transmission itself and the lines that
  \<open>checkWebsite\<close> and \<open>sendEmail\<close> print are outside the model.
\<close>

record state =
  statusMap :: "string \<rightharpoonup> string"
  outbox :: "(EmailConfig \<times> string) list"

text \<open>\<open>var statusMap = make(map[string]string)\<close>: the store starts with no entry.\<close>

definition initial_state :: state where
  "initial_state = \<lparr>statusMap = Map.empty, outbox = []\<rparr>"

text \<open>Reading a Go map at an absent key yields the zero value, the empty string.\<close>

definition map_index :: "(string \<rightharpoonup> string) \<Rightarrow> string \<Rightarrow> string" where
  "map_index m k = (case m k of None \<Rightarrow> [] | Some v \<Rightarrow> v)"

section \<open>Prober and transition detector: checkWebsite\<close>

definition sendEmail :: "EmailConfig \<Rightarrow> string \<Rightarrow> state \<Rightarrow> state" where
  "sendEmail emailConfig url st = st\<lparr>outbox := outbox st @ [(emailConfig, url)]\<rparr>"

text \<open>
  \<open>checkWebsite\<close> performs the GET before taking the mutex and then reads, decides and
  writes under the mutex, so one call is one atomic step on the state, given the result
  of the GET.
\<close>

definition checkWebsite :: "string \<Rightarrow> http_result \<Rightarrow> EmailConfig \<Rightarrow> state \<Rightarrow> state" where
  "checkWebsite url res emailConfig st =
     (let lastStatus = map_index (statusMap st) url in
      case res of
        GetError err \<Rightarrow>
          if lastStatus \<noteq> ''down''
          then (let st1 = sendEmail emailConfig url st
                in st1\<lparr>statusMap := (statusMap st1)(url \<mapsto> ''down'')\<rparr>)
          else st
      | Response code line \<Rightarrow>
          if 200 \<le> code \<and> code \<le> 299
          then st\<lparr>statusMap := (statusMap st)(url \<mapsto> ''up'')\<rparr>
          else if lastStatus \<noteq> ''down''
          then (let st1 = sendEmail emailConfig url st
                in st1\<lparr>statusMap := (statusMap st1)(url \<mapsto> ''down'')\<rparr>)
          else st)"

text \<open>
  The two branches of \<open>checkWebsite\<close> that report the site as down: the transport error
  (line 67) and a status code outside 200..299 (line 80).
\<close>

definition is_down :: "http_result \<Rightarrow> bool" where
  "is_down res = (case res of GetError err \<Rightarrow> True
                  | Response code line \<Rightarrow> \<not> (200 \<le> code \<and> code \<le> 299))"

text \<open>
  \<open>startMonitoring\<close> calls \<open>checkWebsite\<close> once per configured site and round, each call
  in its own goroutine; the mutex serialises the calls, so an execution is a sequence of
  (site, GET result) steps in the order in which the goroutines take the mutex.
\<close>

fun run :: "EmailConfig \<Rightarrow> (string \<times> http_result) list \<Rightarrow> state \<Rightarrow> state" where
  "run emailConfig [] st = st"
| "run emailConfig ((url, res) # evs) st = run emailConfig evs (checkWebsite url res emailConfig st)"

section \<open>Go integers\<close>

text \<open>
  Go's \<open>int\<close> is a 64-bit two's complement integer on the usual platforms; signed
  overflow wraps silently. It is modelled as an \<open>int\<close> in the range
  \<open>MinInt..MaxInt\<close>, with the wrap-around of each operation written out. Go's \<open>/\<close>
  truncates towards zero and panics on a zero divisor; the caller checks the divisor.
\<close>

definition MinInt :: int where
  "MinInt = - (2 ^ 63)"

definition MaxInt :: int where
  "MaxInt = 2 ^ 63 - 1"

definition wrap :: "int \<Rightarrow> int" where
  "wrap x = (x + 2 ^ 63) mod 2 ^ 64 - 2 ^ 63"

definition int_add :: "int \<Rightarrow> int \<Rightarrow> int" where
  "int_add a b = wrap (a + b)"

definition int_sub :: "int \<Rightarrow> int \<Rightarrow> int" where
  "int_sub a b = wrap (a - b)"

definition int_mul :: "int \<Rightarrow> int \<Rightarrow> int" where
  "int_mul a b = wrap (a * b)"

definition int_quo :: "int \<Rightarrow> int \<Rightarrow> int" where
  "int_quo a b = wrap (sgn a * sgn b * (\<bar>a\<bar> div \<bar>b\<bar>))"

section \<open>Library functions used by statusHandler\<close>

text \<open>
  \<open>strconv.Atoi\<close>, after the documentation of the Go standard library: an optional
  sign followed by one or more decimal digits; anything else is a syntax error, and a
  value outside the range of \<open>int\<close> is a range error. The digits are scanned from the
  left, and the scan stops at the first character that is not a digit or at the first
  digit that takes the magnitude beyond 64 bits.
\<close>

datatype NumError = ErrSyntax | ErrRange

definition is_digit :: "char \<Rightarrow> bool" where
  "is_digit c \<longleftrightarrow> CHR ''0'' \<le> c \<and> c \<le> CHR ''9''"

definition digit_value :: "char \<Rightarrow> int" where
  "digit_value c = of_char c - of_char CHR ''0''"

fun parse_digits :: "int \<Rightarrow> string \<Rightarrow> NumError + int" where
  "parse_digits n [] = Inr n"
| "parse_digits n (c # cs) =
     (if \<not> is_digit c then Inl ErrSyntax
      else if 2 ^ 64 \<le> n * 10 + digit_value c then Inl ErrRange
      else parse_digits (n * 10 + digit_value c) cs)"

definition unsigned_part :: "string \<Rightarrow> string" where
  "unsigned_part s = (if s \<noteq> [] \<and> (hd s = CHR ''-'' \<or> hd s = CHR ''+'') then tl s else s)"

definition Atoi :: "string \<Rightarrow> NumError + int" where
  "Atoi s =
     (let neg = (s \<noteq> [] \<and> hd s = CHR ''-'');
          ds = unsigned_part s
      in if ds = [] then Inl ErrSyntax
         else case parse_digits 0 ds of
                Inl err \<Rightarrow> Inl err
              | Inr un \<Rightarrow>
                  if \<not> neg \<and> 2 ^ 63 \<le> un then Inl ErrRange
                  else if neg \<and> 2 ^ 63 < un then Inl ErrRange
                  else Inr (if neg then - un else un))"

text \<open>A numeric parameter: an optional sign and then decimal digits, at least one.\<close>

definition numeric :: "string \<Rightarrow> bool" where
  "numeric s \<longleftrightarrow> unsigned_part s \<noteq> [] \<and> list_all is_digit (unsigned_part s)"

text \<open>
  \<open>r.URL.Query().Get(key)\<close>: the first value of the key among the decoded query
  parameters, the empty string when the key is absent.
\<close>

definition Get :: "(string \<times> string) list \<Rightarrow> string \<Rightarrow> string" where
  "Get query key = (case map_of query key of None \<Rightarrow> [] | Some v \<Rightarrow> v)"

section \<open>Query service: statusHandler\<close>

record StatusEntry =
  URL :: string
  Status :: string

record PaginatedStatusResponse =
  TotalPages :: int
  CurrentPage :: int
  Data :: "StatusEntry list"

text \<open>
  A run-time panic of the handler. \<open>net/http\<close> recovers it and drops the connection:
  no response is written.
\<close>

datatype panic = DivideByZero | SliceBoundsOutOfRange

text \<open>Lines 137-140 and 142-145: parsing and defaulting of the two parameters.\<close>

definition effective_page :: "string \<Rightarrow> int" where
  "effective_page pageStr =
     (case Atoi pageStr of Inl err \<Rightarrow> 1 | Inr page \<Rightarrow> if page < 1 then 1 else page)"

definition effective_limit :: "string \<Rightarrow> int" where
  "effective_limit limitStr =
     (case Atoi limitStr of Inl err \<Rightarrow> 10 | Inr limit \<Rightarrow> if limit < 1 then 10 else limit)"

text \<open>
  The \<open>range\<close> loop over \<open>statusMap\<close> (lines 149-152) appends one entry per key, in an
  order that Go leaves unspecified: \<open>statuses\<close> is any list with one entry per key of the
  map, carrying the stored value.
\<close>

definition range_of :: "(string \<rightharpoonup> string) \<Rightarrow> StatusEntry list \<Rightarrow> bool" where
  "range_of m statuses \<longleftrightarrow>
     distinct (map URL statuses) \<and> map_of (map (\<lambda>e. (URL e, Status e)) statuses) = m"

text \<open>
  Lines 155-178, from the sort to the response. \<open>sort.Slice\<close> orders the entries by
  \<open>URL\<close> with Go's bytewise string comparison, which is the lexicographic order on
  \<open>char list\<close>. A slice expression \<open>statuses[start:end]\<close> panics unless
  \<open>0 \<le> start \<le> end \<le> cap(statuses)\<close>; \<open>end\<close> is at most \<open>len(statuses)\<close> after
  the second clamp, so the length stands for the capacity.
\<close>

definition paginate :: "int \<Rightarrow> int \<Rightarrow> StatusEntry list \<Rightarrow> panic + PaginatedStatusResponse" where
  "paginate page limit statuses0 =
     (let statuses = sort_key URL statuses0;
          totalItems = int (length statuses)
      in if limit = 0 then Inl DivideByZero
         else
           let totalPages = int_quo (int_sub (int_add totalItems limit) 1) limit;
               start = int_mul (int_sub page 1) limit;
               end0 = int_add start limit;
               start' = (if start > totalItems then totalItems else start);
               end' = (if end0 > totalItems then totalItems else end0)
           in if 0 \<le> start' \<and> start' \<le> end' \<and> end' \<le> totalItems
              then Inr \<lparr>TotalPages = totalPages, CurrentPage = page,
                        Data = take (nat (end' - start')) (drop (nat start') statuses)\<rparr>
              else Inl SliceBoundsOutOfRange)"

definition statusHandler :: "(string \<times> string) list \<Rightarrow> StatusEntry list \<Rightarrow> panic + PaginatedStatusResponse" where
  "statusHandler query statuses =
     (let pageStr = Get query ''page'';
          limitStr = Get query ''limit''
      in paginate (effective_page pageStr) (effective_limit limitStr) statuses)"

section \<open>Startup: loadConfiguration and main\<close>

text \<open>
  \<open>loadConfiguration\<close> returns the Go pair \<open>(Config, error)\<close>; \<open>None\<close> is \<open>nil\<close>.
  The file system (\<open>os.Open\<close> followed by reading the file) and the JSON decoder are
  parameters: \<open>os_Open file\<close> is the error or the contents, \<open>json_Decode\<close> fills a
  config and may report an error.
\<close>

definition zero_Config :: Config where
  "zero_Config = \<lparr>Websites = [],
     Email = \<lparr>SMTPHost = [], SMTPPort = 0, Sender = [], Password = [], Recipient = []\<rparr>\<rparr>"

definition loadConfiguration ::
  "(string \<Rightarrow> string + string) \<Rightarrow> (string \<Rightarrow> Config \<times> string option) \<Rightarrow> string
     \<Rightarrow> Config \<times> string option" where
  "loadConfiguration os_Open json_Decode file =
     (case os_Open file of
        Inl err \<Rightarrow> (zero_Config, Some err)
      | Inr contents \<Rightarrow> json_Decode contents)"

text \<open>
  What \<open>main\<close> does, in program order: the lines it prints and the components it
  starts.
\<close>

datatype action = Println string | GoStartAPIServer | StartMonitoring Config

definition main ::
  "(string \<Rightarrow> string + string) \<Rightarrow> (string \<Rightarrow> Config \<times> string option) \<Rightarrow> action list" where
  "main os_Open json_Decode =
     Println ''Uptime Monitor Starting...'' #
     (case loadConfiguration os_Open json_Decode ''config.json'' of
        (config, Some err) \<Rightarrow> [Println (''Error loading configuration: '' @ err)]
      | (config, None) \<Rightarrow> [GoStartAPIServer, StartMonitoring config])"

section \<open>Quantities used to state the properties\<close>

text \<open>
  The number of calls of \<open>sendEmail\<close> made for a site so far.
\<close>

definition sent_for :: "string \<Rightarrow> state \<Rightarrow> nat" where
  "sent_for url st = length (filter (\<lambda>m. snd m = url) (outbox st))"

text \<open>
  Every stored status is one of the two strings that \<open>checkWebsite\<close> writes.
\<close>

definition up_or_down :: "(string \<rightharpoonup> string) \<Rightarrow> bool" where
  "up_or_down m \<longleftrightarrow> (\<forall>u s. m u = Some s \<longrightarrow> s = ''up'' \<or> s = ''down'')"

text \<open>
  The values of \<open>start\<close> and \<open>end\<close> of \<open>statusHandler\<close> after the two clamps
  (lines 163-170), named so that properties of \<open>paginate\<close> can mention them.
\<close>

definition clamped_start :: "int \<Rightarrow> int \<Rightarrow> int \<Rightarrow> int" where
  "clamped_start page limit totalItems =
     (let start = int_mul (int_sub page 1) limit
      in if start > totalItems then totalItems else start)"

definition clamped_end :: "int \<Rightarrow> int \<Rightarrow> int \<Rightarrow> int" where
  "clamped_end page limit totalItems =
     (let end0 = int_add (int_mul (int_sub page 1) limit) limit
      in if end0 > totalItems then totalItems else end0)"

text \<open>
  The page count in the words of the specification, \<open>ceil(total_items / limit)\<close>, in
  integer arithmetic without overflow. \<open>ceil_div_is_ceiling\<close> below shows that it is
  the ceiling of the real quotient.
\<close>

definition ceil_div :: "int \<Rightarrow> int \<Rightarrow> int" where
  "ceil_div totalItems limit = (totalItems + limit - 1) div limit"

text \<open>
  The \<open>data\<close> array of the response for one page; a request that panics has none.
\<close>

definition page_data :: "int \<Rightarrow> int \<Rightarrow> StatusEntry list \<Rightarrow> StatusEntry list" where
  "page_data page limit statuses =
     (case paginate page limit statuses of Inl p \<Rightarrow> [] | Inr resp \<Rightarrow> Data resp)"

section \<open>Concrete inputs\<close>

definition example_email :: EmailConfig where
  "example_email = \<lparr>SMTPHost = ''smtp.example.com'', SMTPPort = 587,
     Sender = ''monitor@example.com'', Password = ''secret'', Recipient = ''ops@example.com''\<rparr>"

definition example_config :: Config where
  "example_config = \<lparr>Websites = [''a.com'', ''b.com''], Email = example_email\<rparr>"

definition down_state :: state where
  "down_state = \<lparr>statusMap = [''x.com'' \<mapsto> ''down''], outbox = []\<rparr>"

definition unreadable_fs :: "string \<Rightarrow> string + string" where
  "unreadable_fs file = Inl ''open config.json: no such file or directory''"

definition malformed_fs :: "string \<Rightarrow> string + string" where
  "malformed_fs file = Inr ''{''"

definition strict_decoder :: "string \<Rightarrow> Config \<times> string option" where
  "strict_decoder contents =
     (if contents = ''{}'' then (zero_Config, None) else (zero_Config, Some ''unexpected EOF''))"

definition outage_events :: "(string \<times> http_result) list" where
  "outage_events =
     [(''y.com'', Response 200 ''200 OK''), (''x.com'', GetError ''dial tcp: timeout''),
      (''y.com'', Response 200 ''200 OK''), (''x.com'', Response 503 ''503 Service Unavailable'')]"

definition example_events :: "(string \<times> http_result) list" where
  "example_events = [(''a.com'', Response 200 ''200 OK''), (''b.com'', GetError ''dial tcp: timeout'')]"

definition two_sites :: "StatusEntry list" where
  "two_sites = [\<lparr>URL = ''b.com'', Status = ''down''\<rparr>, \<lparr>URL = ''a.com'', Status = ''up''\<rparr>]"

definition three_sites :: "StatusEntry list" where
  "three_sites = [\<lparr>URL = ''c.com'', Status = ''up''\<rparr>, \<lparr>URL = ''a.com'', Status = ''up''\<rparr>,
                  \<lparr>URL = ''b.com'', Status = ''up''\<rparr>]"

section \<open>The transition detector\<close>

subsection \<open>One step of checkWebsite\<close>

lemma checkWebsite_up:
  assumes "200 \<le> c" "c \<le> 299"
  shows "checkWebsite url (Response c s) ec st = st\<lparr>statusMap := (statusMap st)(url \<mapsto> ''up'')\<rparr>"
  using assms by (simp add: checkWebsite_def)

lemma checkWebsite_down_new:
  assumes "is_down res" and "map_index (statusMap st) url \<noteq> ''down''"
  shows "checkWebsite url res ec st =
           \<lparr>statusMap = (statusMap st)(url \<mapsto> ''down''), outbox = outbox st @ [(ec, url)]\<rparr>"
  using assms by (cases res) (auto simp: checkWebsite_def is_down_def sendEmail_def)

lemma checkWebsite_down_again:
  assumes "is_down res" and "map_index (statusMap st) url = ''down''"
  shows "checkWebsite url res ec st = st"
  using assms by (cases res) (auto simp: checkWebsite_def is_down_def)

lemma checkWebsite_not_down:
  assumes "\<not> is_down res"
  shows "checkWebsite url res ec st = st\<lparr>statusMap := (statusMap st)(url \<mapsto> ''up'')\<rparr>"
  using assms by (cases res) (auto simp: checkWebsite_def is_down_def)

lemma outbox_checkWebsite:
  "outbox (checkWebsite url res ec st) =
     (if is_down res \<and> map_index (statusMap st) url \<noteq> ''down''
      then outbox st @ [(ec, url)] else outbox st)"
  by (cases "is_down res"; cases "map_index (statusMap st) url = ''down''")
     (simp_all add: checkWebsite_down_new checkWebsite_down_again checkWebsite_not_down)

lemma status_after_checkWebsite:
  "map_index (statusMap (checkWebsite url res ec st)) url = (if is_down res then ''down'' else ''up'')"
  by (cases "is_down res"; cases "map_index (statusMap st) url = ''down''")
     (simp_all add: checkWebsite_down_new checkWebsite_down_again checkWebsite_not_down map_index_def)

lemma status_other_checkWebsite:
  "u \<noteq> url \<Longrightarrow> statusMap (checkWebsite u res ec st) url = statusMap st url"
  by (cases "is_down res"; cases "map_index (statusMap st) u = ''down''")
     (simp_all add: checkWebsite_down_new checkWebsite_down_again checkWebsite_not_down)

lemma map_index_other:
  "u \<noteq> url \<Longrightarrow> map_index (statusMap (checkWebsite u res ec st)) url = map_index (statusMap st) url"
  by (simp add: map_index_def status_other_checkWebsite)

lemma sent_for_checkWebsite:
  "sent_for url (checkWebsite u res ec st) =
     sent_for url st + (if u = url \<and> is_down res \<and> map_index (statusMap st) u \<noteq> ''down'' then 1 else 0)"
  by (simp add: sent_for_def outbox_checkWebsite)

lemma is_down_examples:
  "is_down (GetError ''dial tcp: timeout'')" "is_down (Response 503 ''503 Service Unavailable'')"
  "\<not> is_down (Response 200 ''200 OK'')"
  by (simp_all add: is_down_def)

text \<open>
  Claim C4. What a probe reports is what \<open>checkWebsite\<close> leaves in the store for the
  probed site. When the GET fails at the transport level the stored status is \<open>down\<close>;
  when a response arrives the stored status is \<open>up\<close> exactly when the status code lies
  in 200..299, and \<open>down\<close> for every other code.
\<close>

theorem probe_outcome_stored:
  "map_index (statusMap (checkWebsite url (GetError err) ec st)) url = ''down''
   \<and> map_index (statusMap (checkWebsite url (Response code line) ec st)) url
       = (if 200 \<le> code \<and> code \<le> 299 then ''up'' else ''down'')"
proof
  have "is_down (GetError err)" by (simp add: is_down_def)
  then show "map_index (statusMap (checkWebsite url (GetError err) ec st)) url = ''down''"
    by (simp add: status_after_checkWebsite)
next
  have "is_down (Response code line) \<longleftrightarrow> \<not> (200 \<le> code \<and> code \<le> 299)"
    by (simp add: is_down_def)
  then show "map_index (statusMap (checkWebsite url (Response code line) ec st)) url
       = (if 200 \<le> code \<and> code \<le> 299 then ''up'' else ''down'')"
    by (simp add: status_after_checkWebsite)
qed

theorem probe_outcome_stored_witness:
  "map_index (statusMap (checkWebsite ''x.com'' (GetError ''dial tcp: timeout'') example_email
       initial_state)) ''x.com'' = ''down''
   \<and> map_index (statusMap (checkWebsite ''x.com'' (Response 200 ''200 OK'') example_email
       down_state)) ''x.com'' = ''up''
   \<and> map_index (statusMap (checkWebsite ''x.com'' (Response 299 ''299'') example_email
       initial_state)) ''x.com'' = ''up''
   \<and> map_index (statusMap (checkWebsite ''x.com'' (Response 199 ''199'') example_email
       initial_state)) ''x.com'' = ''down''
   \<and> map_index (statusMap (checkWebsite ''x.com'' (Response 300 ''300 Multiple Choices'') example_email
       initial_state)) ''x.com'' = ''down''
   \<and> map_index (statusMap (checkWebsite ''x.com'' (Response 404 ''404 Not Found'') example_email
       down_state)) ''x.com'' = ''down''"
  using probe_outcome_stored [of "''x.com''" "''dial tcp: timeout''" example_email initial_state 200 "''200 OK''"]
        probe_outcome_stored [of "''x.com''" "''dial tcp: timeout''" example_email down_state 200 "''200 OK''"]
        probe_outcome_stored [of "''x.com''" "''dial tcp: timeout''" example_email initial_state 299 "''299''"]
        probe_outcome_stored [of "''x.com''" "''dial tcp: timeout''" example_email initial_state 199 "''199''"]
        probe_outcome_stored [of "''x.com''" "''dial tcp: timeout''" example_email initial_state 300
           "''300 Multiple Choices''"]
        probe_outcome_stored [of "''x.com''" "''dial tcp: timeout''" example_email down_state 404
           "''404 Not Found''"]
  by simp

text \<open>
  Claim C8. A probe step whose outcome is Up (a response with a status code in 200..299)
  stores \<open>up\<close> for the target and calls \<open>sendEmail\<close> for nobody, whatever was stored
  before, so also when the stored status was \<open>down\<close>: a recovery sends no notification.
\<close>

theorem up_step_stores_up_without_notification:
  assumes "200 \<le> c" and "c \<le> 299"
  shows "map_index (statusMap (checkWebsite url (Response c s) ec st)) url = ''up''
         \<and> outbox (checkWebsite url (Response c s) ec st) = outbox st"
  using assms by (simp add: checkWebsite_up map_index_def)

theorem up_step_stores_up_without_notification_witness:
  "(200::int) \<le> 200 \<and> (200::int) \<le> 299
   \<and> map_index (statusMap down_state) ''x.com'' = ''down''
   \<and> map_index (statusMap (checkWebsite ''x.com'' (Response 200 ''200 OK'') example_email
        down_state)) ''x.com'' = ''up''
   \<and> outbox (checkWebsite ''x.com'' (Response 200 ''200 OK'') example_email down_state) = []"
  using up_step_stores_up_without_notification
    [of 200 "''x.com''" "''200 OK''" example_email down_state]
  by (simp add: map_index_def down_state_def)

subsection \<open>Sequences of steps\<close>

lemma repeated_down_silent:
  assumes "map_index (statusMap st) url = ''down''" and "list_all is_down rs"
  shows "run ec (map (Pair url) rs) st = st"
  using assms by (induction rs) (simp_all add: checkWebsite_down_again)

lemma consecutive_down_once:
  assumes "map_index (statusMap st) url \<noteq> ''down''" and "list_all is_down (r # rs)"
  shows "outbox (run ec (map (Pair url) (r # rs)) st) = outbox st @ [(ec, url)]"
proof -
  let ?st1 = "checkWebsite url r ec st"
  from assms have r: "is_down r" and rs: "list_all is_down rs" by simp_all
  have "map_index (statusMap ?st1) url = ''down''"
    using r by (simp add: status_after_checkWebsite)
  then have "run ec (map (Pair url) rs) ?st1 = ?st1"
    using rs by (rule repeated_down_silent)
  then show ?thesis
    using r assms(1) by (simp add: outbox_checkWebsite)
qed

lemma interleaved_down_silent:
  assumes "map_index (statusMap st) url = ''down''"
      and "\<forall>(u, r) \<in> set evs. u = url \<longrightarrow> is_down r"
  shows "sent_for url (run ec evs st) = sent_for url st
         \<and> map_index (statusMap (run ec evs st)) url = ''down''"
  using assms
proof (induction evs arbitrary: st)
  case Nil
  then show ?case by simp
next
  case (Cons ev evs)
  obtain u r where ev: "ev = (u, r)" by (cases ev)
  let ?st1 = "checkWebsite u r ec st"
  have down1: "map_index (statusMap ?st1) url = ''down''"
  proof (cases "u = url")
    case True
    with Cons.prems ev show ?thesis by (simp add: status_after_checkWebsite)
  next
    case False
    with Cons.prems show ?thesis by (simp add: map_index_other)
  qed
  have same1: "sent_for url ?st1 = sent_for url st"
    using Cons.prems(1) by (auto simp: sent_for_checkWebsite)
  from Cons.prems(2) have "\<forall>(u, r) \<in> set evs. u = url \<longrightarrow> is_down r" by simp
  from Cons.IH [OF down1 this] same1 show ?case by (simp add: ev)
qed

lemma interleaved_down_once:
  assumes "map_index (statusMap st) url \<noteq> ''down''"
      and "\<forall>(u, r) \<in> set evs. u = url \<longrightarrow> is_down r"
      and "url \<in> fst ` set evs"
  shows "sent_for url (run ec evs st) = sent_for url st + 1"
  using assms
proof (induction evs arbitrary: st)
  case Nil
  then show ?case by simp
next
  case (Cons ev evs)
  obtain u r where ev: "ev = (u, r)" by (cases ev)
  let ?st1 = "checkWebsite u r ec st"
  from Cons.prems(2) have rest: "\<forall>(u, r) \<in> set evs. u = url \<longrightarrow> is_down r" by simp
  show ?case
  proof (cases "u = url")
    case True
    with Cons.prems ev have r: "is_down r" by simp
    have "map_index (statusMap ?st1) url = ''down''"
      using True r by (simp add: status_after_checkWebsite)
    from interleaved_down_silent [OF this rest]
    have "sent_for url (run ec evs ?st1) = sent_for url ?st1" by simp
    also have "\<dots> = sent_for url st + 1"
      using True r Cons.prems(1) by (simp add: sent_for_checkWebsite)
    finally show ?thesis by (simp add: ev)
  next
    case False
    then have 1: "map_index (statusMap ?st1) url \<noteq> ''down''"
      using Cons.prems(1) by (simp add: map_index_other)
    from False Cons.prems(3) ev have 2: "url \<in> fst ` set evs" by auto
    have "sent_for url ?st1 = sent_for url st"
      using False by (simp add: sent_for_checkWebsite)
    with Cons.IH [OF 1 rest 2] show ?thesis by (simp add: ev)
  qed
qed

text \<open>
  Claim C2. For every site, state and GET result, the step calls \<open>sendEmail\<close> (once, for
  that site) if and only if the result is Down and the status stored before was not
  \<open>down\<close>; after a Down step the stored status of the site is \<open>down\<close>. Hence a run of
  one or more consecutive Down results for a site, started from a stored status other than
  \<open>down\<close>, sends exactly one notification, and sends it on the first step. The last
  conjunct says the same when steps for other sites are interleaved, as they are within
  rounds: as long as every result for the site is Down and there is at least one, exactly one
  notification for the site is added.
\<close>

theorem notification_on_down_transition_only:
  "outbox (checkWebsite url res ec st) =
     (if is_down res \<and> map_index (statusMap st) url \<noteq> ''down''
      then outbox st @ [(ec, url)] else outbox st)
   \<and> (is_down res \<longrightarrow> map_index (statusMap (checkWebsite url res ec st)) url = ''down'')
   \<and> (map_index (statusMap st) url \<noteq> ''down'' \<and> list_all is_down (r # rs) \<longrightarrow>
        outbox (checkWebsite url r ec st) = outbox st @ [(ec, url)]
        \<and> outbox (run ec (map (Pair url) (r # rs)) st) = outbox st @ [(ec, url)])
   \<and> (map_index (statusMap st) url \<noteq> ''down'' \<and> url \<in> fst ` set evs
        \<and> (\<forall>(u, r) \<in> set evs. u = url \<longrightarrow> is_down r) \<longrightarrow>
        sent_for url (run ec evs st) = sent_for url st + 1)"
proof (intro conjI impI)
  show "outbox (checkWebsite url res ec st) =
     (if is_down res \<and> map_index (statusMap st) url \<noteq> ''down''
      then outbox st @ [(ec, url)] else outbox st)"
    by (rule outbox_checkWebsite)
next
  assume "is_down res"
  then show "map_index (statusMap (checkWebsite url res ec st)) url = ''down''"
    by (simp add: status_after_checkWebsite)
next
  assume a: "map_index (statusMap st) url \<noteq> ''down'' \<and> list_all is_down (r # rs)"
  then show "outbox (checkWebsite url r ec st) = outbox st @ [(ec, url)]"
    by (simp add: outbox_checkWebsite)
  from a show "outbox (run ec (map (Pair url) (r # rs)) st) = outbox st @ [(ec, url)]"
    using consecutive_down_once by blast
next
  assume "map_index (statusMap st) url \<noteq> ''down'' \<and> url \<in> fst ` set evs
        \<and> (\<forall>(u, r) \<in> set evs. u = url \<longrightarrow> is_down r)"
  then show "sent_for url (run ec evs st) = sent_for url st + 1"
    using interleaved_down_once by blast
qed

theorem notification_on_down_transition_only_witness:
  "map_index (statusMap initial_state) ''x.com'' \<noteq> ''down''
   \<and> list_all is_down [GetError ''dial tcp: timeout'', Response 503 ''503 Service Unavailable'']
   \<and> outbox (checkWebsite ''x.com'' (GetError ''dial tcp: timeout'') example_email initial_state)
       = [(example_email, ''x.com'')]
   \<and> outbox (run example_email (map (Pair ''x.com'')
         [GetError ''dial tcp: timeout'', Response 503 ''503 Service Unavailable'']) initial_state)
       = [(example_email, ''x.com'')]
   \<and> map_index (statusMap (checkWebsite ''x.com'' (GetError ''dial tcp: timeout'') example_email
         initial_state)) ''x.com'' = ''down''
   \<and> ''x.com'' \<in> fst ` set outage_events
   \<and> sent_for ''x.com'' (run example_email outage_events initial_state) = 1"
proof -
  have 1: "map_index (statusMap initial_state) ''x.com'' \<noteq> ''down''"
    by (simp add: map_index_def initial_state_def)
  have 2: "list_all is_down [GetError ''dial tcp: timeout'', Response 503 ''503 Service Unavailable'']"
    by (simp add: is_down_examples)
  have 3: "''x.com'' \<in> fst ` set outage_events"
    by (simp add: outage_events_def)
  have 4: "\<forall>(u, r) \<in> set outage_events. u = ''x.com'' \<longrightarrow> is_down r"
    by (simp add: outage_events_def is_down_examples)
  have 5: "sent_for ''x.com'' initial_state = 0" "outbox initial_state = []"
    by (simp_all add: sent_for_def initial_state_def)
  from notification_on_down_transition_only
    [of "''x.com''" "GetError ''dial tcp: timeout''" example_email initial_state
        "GetError ''dial tcp: timeout''" "[Response 503 ''503 Service Unavailable'']" outage_events]
    1 2 3 4 5
  show ?thesis by (simp add: is_down_examples)
qed

section \<open>The status store\<close>

lemma dom_checkWebsite:
  "dom (statusMap (checkWebsite url res ec st)) = insert url (dom (statusMap st))"
proof (cases "is_down res")
  case True
  show ?thesis
  proof (cases "map_index (statusMap st) url = ''down''")
    case True
    then have "url \<in> dom (statusMap st)"
      by (auto simp: map_index_def split: option.splits)
    with True \<open>is_down res\<close> show ?thesis
      by (auto simp: checkWebsite_down_again)
  next
    case False
    with True show ?thesis by (simp add: checkWebsite_down_new)
  qed
next
  case False
  then show ?thesis by (simp add: checkWebsite_not_down)
qed

lemma dom_run:
  "dom (statusMap (run ec evs st)) = dom (statusMap st) \<union> fst ` set evs"
proof (induction evs arbitrary: st)
  case Nil
  then show ?case by simp
next
  case (Cons ev evs)
  obtain u r where ev: "ev = (u, r)" by (cases ev)
  show ?case by (simp add: ev Cons.IH dom_checkWebsite)
qed

lemma up_or_down_checkWebsite:
  assumes "up_or_down (statusMap st)"
  shows "up_or_down (statusMap (checkWebsite url res ec st))"
proof (cases "is_down res")
  case True
  with assms show ?thesis
    by (cases "map_index (statusMap st) url = ''down''")
       (auto simp: checkWebsite_down_new checkWebsite_down_again up_or_down_def)
next
  case False
  with assms show ?thesis
    by (auto simp: checkWebsite_not_down up_or_down_def)
qed

lemma up_or_down_run:
  "up_or_down (statusMap st) \<Longrightarrow> up_or_down (statusMap (run ec evs st))"
proof (induction evs arbitrary: st)
  case Nil
  then show ?case by simp
next
  case (Cons ev evs)
  obtain u r where ev: "ev = (u, r)" by (cases ev)
  from Cons show ?case by (simp add: ev up_or_down_checkWebsite)
qed

lemma up_or_down_initial: "up_or_down (statusMap initial_state)"
  by (simp add: up_or_down_def initial_state_def)

text \<open>
  Claim C1, as the specification states it, fails on the code: \<open>statusMap\<close> is created
  empty, not with every configured site mapped to \<open>unknown\<close>, so before the first probe
  its key set differs from the configured set; and a probe of a site that has no entry yet
  adds a key.
\<close>

theorem store_keys_counterexample:
  "dom (statusMap initial_state) \<noteq> set (Websites example_config)
   \<and> dom (statusMap (checkWebsite ''a.com'' (Response 200 ''200 OK'') (Email example_config) initial_state))
       \<noteq> dom (statusMap initial_state)
   \<and> statusMap initial_state ''a.com'' \<noteq> Some ''unknown''"
  by (simp add: initial_state_def example_config_def checkWebsite_def)

text \<open>
  Claim C1, amended. The store starts empty. After any sequence of probes of configured
  sites its key set is exactly the set of sites probed so far, a subset of the configured
  set, and equal to the configured set once every configured site has been probed (from the
  end of the first round on). No step removes a key.
\<close>

theorem store_keys_are_probed_targets:
  assumes "fst ` set evs \<subseteq> set (Websites config)"
  shows "dom (statusMap initial_state) = {}
       \<and> dom (statusMap (run (Email config) evs initial_state)) = fst ` set evs
       \<and> dom (statusMap (run (Email config) evs initial_state)) \<subseteq> set (Websites config)
       \<and> (set (Websites config) \<subseteq> fst ` set evs \<longrightarrow>
            dom (statusMap (run (Email config) evs initial_state)) = set (Websites config))
       \<and> dom (statusMap st) \<subseteq> dom (statusMap (checkWebsite url res ec st))"
  using assms by (auto simp: dom_run dom_checkWebsite initial_state_def)

theorem store_keys_are_probed_targets_witness:
  "fst ` set [(''a.com'', Response 200 ''200 OK'')] \<subseteq> set (Websites example_config)
   \<and> dom (statusMap (run (Email example_config) [(''a.com'', Response 200 ''200 OK'')] initial_state))
       = {''a.com''}
   \<and> dom (statusMap (run (Email example_config)
        [(''b.com'', GetError ''timeout''), (''a.com'', Response 200 ''200 OK'')] initial_state))
       = set (Websites example_config)"
  using store_keys_are_probed_targets
          [of "[(''a.com'', Response 200 ''200 OK'')]" example_config]
        store_keys_are_probed_targets
          [of "[(''b.com'', GetError ''timeout''), (''a.com'', Response 200 ''200 OK'')]" example_config]
  by (auto simp: example_config_def)

section \<open>The query service\<close>

subsection \<open>The sort\<close>

text \<open>
  \<open>sort.Slice\<close> is not \<open>sort_key\<close>'s algorithm and is not stable, but the keys of a map
  are distinct, and a list with distinct keys has one sorted permutation only: whatever
  list \<open>sort.Slice\<close> produces, it is \<open>sort_key URL statuses\<close>.
\<close>

lemma filter_same_key:
  assumes "distinct (map f xs)" and "k \<in> set xs"
  shows "filter (\<lambda>x. f k = f x) xs = [k]"
  using assms
proof (induction xs)
  case Nil
  then show ?case by simp
next
  case (Cons a xs)
  from Cons.prems(1) have fa: "f a \<notin> f ` set xs" and d: "distinct (map f xs)" by simp_all
  show ?case
  proof (cases "k = a")
    case True
    from fa have "\<forall>x \<in> set xs. f a \<noteq> f x" by blast
    then have "filter (\<lambda>x. f a = f x) xs = []" by (simp only: filter_empty_conv)
    with True show ?thesis by simp
  next
    case False
    with Cons.prems(2) have k: "k \<in> set xs" by simp
    then have "f k \<in> f ` set xs" by (rule imageI)
    with fa have "f k \<noteq> f a" by auto
    with Cons.IH [OF d k] show ?thesis by simp
  qed
qed

lemma sorted_permutation_unique:
  assumes "distinct (map URL statuses)" and "mset ys = mset statuses" and "sorted (map URL ys)"
  shows "ys = sort_key URL statuses"
proof -
  from assms(2) have "mset (map URL ys) = mset (map URL statuses)" by simp
  then have "distinct (map URL ys) \<longleftrightarrow> distinct (map URL statuses)"
    by (rule mset_eq_imp_distinct_iff)
  with assms(1) have dy: "distinct (map URL ys)" by simp
  have "sort_key URL statuses = ys"
  proof (rule properties_for_sort_key)
    show "mset ys = mset statuses" by fact
    show "sorted (map URL ys)" by fact
    fix k assume k: "k \<in> set ys"
    from assms(2) have "set ys = set statuses" by (rule mset_eq_setD)
    with k have "k \<in> set statuses" by simp
    with assms(1) have "filter (\<lambda>x. URL k = URL x) statuses = [k]" by (rule filter_same_key)
    moreover from dy k have "filter (\<lambda>x. URL k = URL x) ys = [k]" by (rule filter_same_key)
    ultimately show "filter (\<lambda>x. URL k = URL x) ys = filter (\<lambda>x. URL k = URL x) statuses"
      by simp
  qed
  then show ?thesis by simp
qed

subsection \<open>The response of paginate\<close>

lemma paginate_eq:
  "paginate page limit statuses =
     (if limit = 0 then Inl DivideByZero
      else if 0 \<le> clamped_start page limit (int (length statuses))
              \<and> clamped_start page limit (int (length statuses)) \<le> clamped_end page limit (int (length statuses))
              \<and> clamped_end page limit (int (length statuses)) \<le> int (length statuses)
      then Inr \<lparr>TotalPages = int_quo (int_sub (int_add (int (length statuses)) limit) 1) limit,
                CurrentPage = page,
                Data = take (nat (clamped_end page limit (int (length statuses))
                                  - clamped_start page limit (int (length statuses))))
                         (drop (nat (clamped_start page limit (int (length statuses))))
                            (sort_key URL statuses))\<rparr>
      else Inl SliceBoundsOutOfRange)"
  by (simp only: paginate_def Let_def clamped_start_def clamped_end_def length_sort)

lemma paginate_Inr_fields:
  assumes "paginate page limit statuses = Inr resp"
  shows "TotalPages resp = int_quo (int_sub (int_add (int (length statuses)) limit) 1) limit"
    and "CurrentPage resp = page"
proof -
  let ?n = "int (length statuses)"
  let ?ok = "0 \<le> clamped_start page limit ?n
              \<and> clamped_start page limit ?n \<le> clamped_end page limit ?n
              \<and> clamped_end page limit ?n \<le> ?n"
  from assms have "limit \<noteq> 0"
    by (cases "limit = 0") (simp_all add: paginate_eq)
  moreover from this assms have "?ok"
    by (cases "?ok") (simp_all add: paginate_eq)
  ultimately have "resp = \<lparr>TotalPages = int_quo (int_sub (int_add ?n limit) 1) limit,
                CurrentPage = page,
                Data = take (nat (clamped_end page limit ?n - clamped_start page limit ?n))
                         (drop (nat (clamped_start page limit ?n)) (sort_key URL statuses))\<rparr>"
    using assms by (simp add: paginate_eq)
  then show "TotalPages resp = int_quo (int_sub (int_add (int (length statuses)) limit) 1) limit"
    and "CurrentPage resp = page" by simp_all
qed

lemma Data_paginate_subset:
  assumes "paginate page limit statuses = Inr resp"
  shows "set (Data resp) \<subseteq> set statuses"
proof -
  have sub: "set (take k (drop j (sort_key URL statuses))) \<subseteq> set statuses" for k j
    using set_take_subset [of k "drop j (sort_key URL statuses)"]
          set_drop_subset [of j "sort_key URL statuses"]
    by auto
  from assms obtain k j where "Data resp = take k (drop j (sort_key URL statuses))"
    unfolding paginate_eq by (auto split: if_splits)
  with sub show ?thesis by simp
qed

lemma Data_statusHandler_subset:
  "statusHandler query statuses = Inr resp \<Longrightarrow> set (Data resp) \<subseteq> set statuses"
  by (simp add: statusHandler_def Data_paginate_subset)

lemma range_of_entry:
  assumes "range_of m statuses" and "e \<in> set statuses"
  shows "m (URL e) = Some (Status e)"
proof -
  let ?kv = "map (\<lambda>e. (URL e, Status e)) statuses"
  from assms(1) have d: "distinct (map fst ?kv)" and m: "map_of ?kv = m"
    by (simp_all add: range_of_def comp_def)
  from assms(2) have "(URL e, Status e) \<in> set ?kv" by auto
  with d have "map_of ?kv (URL e) = Some (Status e)" by (rule map_of_is_SomeI)
  with m show ?thesis by simp
qed

text \<open>
  Claim C10. Every entry of a response of \<open>statusHandler\<close>, in any state that probes can
  reach from the initial one, has status \<open>up\<close> or \<open>down\<close>, never \<open>unknown\<close>, and
  belongs to a site that some probe has already handled: a site not probed yet has no entry.
\<close>

theorem handler_reports_up_or_down_only:
  assumes "range_of (statusMap (run ec evs initial_state)) statuses"
      and "statusHandler query statuses = Inr resp"
  shows "\<forall>e \<in> set (Data resp).
           (Status e = ''up'' \<or> Status e = ''down'') \<and> Status e \<noteq> ''unknown''
           \<and> URL e \<in> fst ` set evs"
proof
  fix e assume "e \<in> set (Data resp)"
  with assms(2) have "e \<in> set statuses"
    using Data_statusHandler_subset by blast
  with assms(1) have stored: "statusMap (run ec evs initial_state) (URL e) = Some (Status e)"
    by (rule range_of_entry)
  have "up_or_down (statusMap (run ec evs initial_state))"
    by (rule up_or_down_run [OF up_or_down_initial])
  with stored have 1: "Status e = ''up'' \<or> Status e = ''down''"
    by (simp add: up_or_down_def)
  from stored have "URL e \<in> dom (statusMap (run ec evs initial_state))" by blast
  then have 2: "URL e \<in> fst ` set evs"
    by (simp add: dom_run initial_state_def)
  from 1 2 show "(Status e = ''up'' \<or> Status e = ''down'') \<and> Status e \<noteq> ''unknown''
           \<and> URL e \<in> fst ` set evs" by auto
qed

lemma run_example_events:
  "statusMap (run example_email example_events initial_state)
     = [''a.com'' \<mapsto> ''up'', ''b.com'' \<mapsto> ''down'']"
  by (simp add: example_events_def initial_state_def checkWebsite_def map_index_def sendEmail_def)

lemma range_of_two_sites:
  "range_of (statusMap (run example_email example_events initial_state)) two_sites"
  by (simp add: run_example_events range_of_def two_sites_def)

lemma statusHandler_two_sites:
  "statusHandler [] two_sites
     = Inr \<lparr>TotalPages = 1, CurrentPage = 1,
             Data = [\<lparr>URL = ''a.com'', Status = ''up''\<rparr>, \<lparr>URL = ''b.com'', Status = ''down''\<rparr>]\<rparr>"
  by code_simp

theorem handler_reports_up_or_down_only_witness:
  "range_of (statusMap (run example_email example_events initial_state)) two_sites
   \<and> statusHandler [] two_sites
       = Inr \<lparr>TotalPages = 1, CurrentPage = 1,
               Data = [\<lparr>URL = ''a.com'', Status = ''up''\<rparr>, \<lparr>URL = ''b.com'', Status = ''down''\<rparr>]\<rparr>
   \<and> list_all (\<lambda>e. (Status e = ''up'' \<or> Status e = ''down'') \<and> Status e \<noteq> ''unknown''
                    \<and> URL e \<in> fst ` set example_events)
        [\<lparr>URL = ''a.com'', Status = ''up''\<rparr>, \<lparr>URL = ''b.com'', Status = ''down''\<rparr>]"
  using handler_reports_up_or_down_only [OF range_of_two_sites statusHandler_two_sites]
        range_of_two_sites statusHandler_two_sites
  by (simp add: list_all_iff)

subsection \<open>Parsing and defaulting of page and limit\<close>

lemma Get_same: "Get ((key, v) # query) key = v"
  by (simp add: Get_def)

lemma Get_other: "key \<noteq> key' \<Longrightarrow> Get ((key', v) # query) key = Get query key"
  by (simp add: Get_def)

lemma Get_absent: "map_of query key = None \<Longrightarrow> Get query key = []"
  by (simp add: Get_def)

lemma parse_digits_non_digit:
  "\<not> list_all is_digit ds \<Longrightarrow> \<exists>err. parse_digits n ds = Inl err"
  by (induction ds arbitrary: n) auto

lemma Atoi_not_numeric:
  assumes "\<not> numeric s"
  shows "\<exists>err. Atoi s = Inl err"
proof (cases "unsigned_part s = []")
  case True
  then show ?thesis by (simp add: Atoi_def)
next
  case False
  with assms have "\<not> list_all is_digit (unsigned_part s)"
    by (simp add: numeric_def)
  then obtain err where "parse_digits 0 (unsigned_part s) = Inl err"
    using parse_digits_non_digit by blast
  with False show ?thesis by (simp add: Atoi_def)
qed

lemma not_numeric_empty: "\<not> numeric []"
  by (simp add: numeric_def unsigned_part_def)

lemma effective_page_error: "Atoi s = Inl err \<Longrightarrow> effective_page s = 1"
  by (simp add: effective_page_def)

lemma effective_limit_error: "Atoi s = Inl err \<Longrightarrow> effective_limit s = 10"
  by (simp add: effective_limit_def)

lemma effective_page_value:
  "Atoi s = Inr p \<Longrightarrow> effective_page s = (if p < 1 then 1 else p)"
  by (simp add: effective_page_def)

lemma effective_limit_value:
  "Atoi s = Inr l \<Longrightarrow> effective_limit s = (if l < 1 then 10 else l)"
  by (simp add: effective_limit_def)

lemma Atoi_examples:
  "Atoi ''0'' = Inr 0" "Atoi ''-5'' = Inr (- 5)" "Atoi ''x'' = Inl ErrSyntax"
  "Atoi ''1'' = Inr 1" "Atoi ''-1'' = Inr (- 1)" "Atoi ''10'' = Inr 10"
  "Atoi ''9223372036854775807'' = Inr 9223372036854775807"
  "Atoi ''2'' = Inr 2" "Atoi ''3'' = Inr 3"
  by code_simp+

lemma effective_examples:
  "effective_page ''0'' = 1" "effective_page ''-5'' = 1" "effective_page ''x'' = 1"
  "effective_page ''1'' = 1" "effective_page [] = 1"
  "effective_limit ''0'' = 10" "effective_limit ''-1'' = 10" "effective_limit ''10'' = 10"
  "effective_limit [] = 10"
  by (simp_all add: Atoi_examples effective_page_value effective_limit_value
        effective_page_error [OF Atoi_examples(3)])
     (insert Atoi_not_numeric [OF not_numeric_empty],
      auto simp: effective_page_def effective_limit_def)

lemma statusHandler_page:
  "statusHandler ((''page'', v) # query) statuses =
     paginate (effective_page v) (effective_limit (Get query ''limit'')) statuses"
  by (simp add: statusHandler_def Get_same Get_other)

lemma statusHandler_limit:
  "statusHandler ((''limit'', v) # query) statuses =
     paginate (effective_page (Get query ''page'')) (effective_limit v) statuses"
  by (simp add: statusHandler_def Get_same Get_other)

lemma not_numeric_x: "\<not> numeric ''x''"
  by code_simp

text \<open>
  The effective parameters are always at least 1 and within the range of \<open>int\<close>.
\<close>

lemma digit_value_range:
  assumes "is_digit c"
  shows "0 \<le> digit_value c"
proof -
  from assms have "(48::nat) \<le> of_char c"
    by (simp add: is_digit_def less_eq_char_def)
  then have "int 48 \<le> int (of_char c)" by (simp only: of_nat_le_iff)
  then have "(48::int) \<le> of_char c" by (simp add: of_nat_of_char)
  then show ?thesis by (simp add: digit_value_def)
qed

lemma parse_digits_nonneg:
  "parse_digits n ds = Inr m \<Longrightarrow> 0 \<le> n \<Longrightarrow> 0 \<le> m"
proof (induction ds arbitrary: n)
  case Nil
  then show ?case by simp
next
  case (Cons c cs)
  from Cons.prems(1) have d: "is_digit c"
    and rest: "parse_digits (n * 10 + digit_value c) cs = Inr m"
    by (simp_all split: if_splits)
  from d Cons.prems(2) have "0 \<le> n * 10 + digit_value c"
    using digit_value_range [of c] by simp
  with rest show ?case by (rule Cons.IH)
qed

lemma Atoi_range:
  assumes "Atoi s = Inr v"
  shows "MinInt \<le> v \<and> v \<le> MaxInt"
proof -
  from assms obtain un where un: "parse_digits 0 (unsigned_part s) = Inr un"
    by (auto simp: Atoi_def Let_def split: if_splits sum.splits)
  then have "0 \<le> un" by (rule parse_digits_nonneg) simp
  with assms un show ?thesis
    by (auto simp: Atoi_def Let_def MinInt_def MaxInt_def split: if_splits)
qed

lemma effective_page_range: "1 \<le> effective_page s \<and> effective_page s \<le> MaxInt"
proof (cases "Atoi s")
  case (Inl err)
  then show ?thesis by (simp add: effective_page_def MaxInt_def)
next
  case (Inr v)
  with Atoi_range [OF Inr] show ?thesis by (simp add: effective_page_def MaxInt_def)
qed

lemma effective_limit_range: "1 \<le> effective_limit s \<and> effective_limit s \<le> MaxInt"
proof (cases "Atoi s")
  case (Inl err)
  then show ?thesis by (simp add: effective_limit_def MaxInt_def)
next
  case (Inr v)
  with Atoi_range [OF Inr] show ?thesis by (simp add: effective_limit_def MaxInt_def)
qed

text \<open>
  Claim C5. An absent \<open>page\<close> is handled as page 1 and an absent \<open>limit\<close> as limit 10;
  a \<open>page\<close> that is not numeric or is below 1 gives the effective page 1, a \<open>limit\<close>
  that is not numeric or is below 1 gives the effective limit 10, and every parsed limit of
  at least 1 is used as it is, however large. The responses for \<open>page=0\<close>, \<open>page=-5\<close>
  and \<open>page=x\<close> are those for \<open>page=1\<close>, and the responses for \<open>limit=0\<close> and
  \<open>limit=-1\<close> are those for \<open>limit=10\<close>, whatever the other parameters and the store.
\<close>

theorem parameter_defaulting:
  "(map_of query ''page'' = None \<longrightarrow>
      statusHandler query statuses = paginate 1 (effective_limit (Get query ''limit'')) statuses)
   \<and> (map_of query ''limit'' = None \<longrightarrow>
      statusHandler query statuses = paginate (effective_page (Get query ''page'')) 10 statuses)
   \<and> (\<not> numeric pageStr \<or> (\<exists>p. Atoi pageStr = Inr p \<and> p < 1) \<longrightarrow> effective_page pageStr = 1)
   \<and> (\<not> numeric limitStr \<or> (\<exists>l. Atoi limitStr = Inr l \<and> l < 1) \<longrightarrow> effective_limit limitStr = 10)
   \<and> (Atoi limitStr = Inr l \<and> 1 \<le> l \<longrightarrow> effective_limit limitStr = l)
   \<and> statusHandler ((''page'', ''0'') # query) statuses = statusHandler ((''page'', ''1'') # query) statuses
   \<and> statusHandler ((''page'', ''-5'') # query) statuses = statusHandler ((''page'', ''1'') # query) statuses
   \<and> statusHandler ((''page'', ''x'') # query) statuses = statusHandler ((''page'', ''1'') # query) statuses
   \<and> statusHandler ((''limit'', ''0'') # query) statuses = statusHandler ((''limit'', ''10'') # query) statuses
   \<and> statusHandler ((''limit'', ''-1'') # query) statuses = statusHandler ((''limit'', ''10'') # query) statuses"
proof (intro conjI impI)
  assume "map_of query ''page'' = None"
  then have "effective_page (Get query ''page'') = 1"
    by (simp add: Get_absent effective_examples)
  then show "statusHandler query statuses = paginate 1 (effective_limit (Get query ''limit'')) statuses"
    by (simp add: statusHandler_def)
next
  assume "map_of query ''limit'' = None"
  then have "effective_limit (Get query ''limit'') = 10"
    by (simp add: Get_absent effective_examples)
  then show "statusHandler query statuses = paginate (effective_page (Get query ''page'')) 10 statuses"
    by (simp add: statusHandler_def)
next
  assume "\<not> numeric pageStr \<or> (\<exists>p. Atoi pageStr = Inr p \<and> p < 1)"
  then show "effective_page pageStr = 1"
    using Atoi_not_numeric [of pageStr]
    by (auto simp: effective_page_error effective_page_value)
next
  assume "\<not> numeric limitStr \<or> (\<exists>l. Atoi limitStr = Inr l \<and> l < 1)"
  then show "effective_limit limitStr = 10"
    using Atoi_not_numeric [of limitStr]
    by (auto simp: effective_limit_error effective_limit_value)
next
  assume "Atoi limitStr = Inr l \<and> 1 \<le> l"
  then show "effective_limit limitStr = l"
    by (simp add: effective_limit_value)
qed (simp_all only: statusHandler_page statusHandler_limit effective_examples)

theorem parameter_defaulting_witness:
  "map_of [(''limit'', ''9223372036854775807'')] ''page'' = None
   \<and> statusHandler [(''limit'', ''9223372036854775807'')] two_sites
       = paginate 1 9223372036854775807 two_sites
   \<and> statusHandler [] two_sites = paginate 1 10 two_sites
   \<and> \<not> numeric ''x'' \<and> effective_page ''x'' = 1 \<and> effective_limit ''x'' = 10
   \<and> Atoi ''-5'' = Inr (- 5) \<and> effective_page ''-5'' = 1 \<and> effective_limit ''-5'' = 10
   \<and> Atoi ''9223372036854775807'' = Inr 9223372036854775807
   \<and> effective_limit ''9223372036854775807'' = 9223372036854775807"
  using parameter_defaulting
          [where query = "[(''limit'', ''9223372036854775807'')]" and statuses = two_sites
             and pageStr = "''x''" and limitStr = "''x''"]
        parameter_defaulting
          [where query = "[]" and statuses = two_sites and pageStr = "''-5''"
             and limitStr = "''-5''"]
        parameter_defaulting
          [where query = "[]" and statuses = two_sites
             and limitStr = "''9223372036854775807''" and l = 9223372036854775807]
        not_numeric_x Atoi_examples
  by (simp add: Get_same Get_def effective_examples)

subsection \<open>Pagination without overflow\<close>

lemma wrap_id: "MinInt \<le> x \<Longrightarrow> x \<le> MaxInt \<Longrightarrow> wrap x = x"
  by (simp add: wrap_def MinInt_def MaxInt_def)

lemma wrap_wrap_diff: "wrap (wrap x - y) = wrap (x - y)"
proof -
  have "(wrap x - y + 2 ^ 63) mod 2 ^ 64 = ((x + 2 ^ 63) mod 2 ^ 64 - y) mod 2 ^ 64"
    by (simp add: wrap_def)
  also have "\<dots> = (x + 2 ^ 63 - y) mod 2 ^ 64"
    by (rule mod_diff_left_eq)
  finally show ?thesis by (simp add: wrap_def algebra_simps)
qed

lemma ceil_div_bounds:
  assumes "1 \<le> limit"
  shows "n \<le> ceil_div n limit * limit" and "(ceil_div n limit - 1) * limit < n"
proof -
  let ?a = "n + limit - 1"
  have d: "?a = ?a div limit * limit + ?a mod limit" by simp
  have m: "0 \<le> ?a mod limit" "?a mod limit < limit" using assms by simp_all
  from d m show "n \<le> ceil_div n limit * limit"
    unfolding ceil_div_def by linarith
  have "(?a div limit - 1) * limit = ?a div limit * limit - limit"
    by (simp add: algebra_simps)
  with d m show "(ceil_div n limit - 1) * limit < n"
    unfolding ceil_div_def by linarith
qed

lemma ceil_div_is_ceiling:
  assumes "1 \<le> limit"
  shows "ceil_div n limit = \<lceil>real_of_int n / real_of_int limit\<rceil>"
proof -
  let ?q = "ceil_div n limit"
  have "- n = limit * (- ?q) + (?q * limit - n)" by (simp add: algebra_simps)
  moreover have "0 \<le> ?q * limit - n"
    using ceil_div_bounds(1) [OF assms, of n] by simp
  moreover have "?q * limit - n < limit"
    using ceil_div_bounds(2) [OF assms, of n] by (simp add: algebra_simps)
  ultimately have "- n div limit = - ?q" by (rule int_div_pos_eq)
  then show ?thesis by (simp add: ceiling_divide_eq_div)
qed

lemma total_pages_no_overflow:
  assumes "1 \<le> limit" and "0 \<le> n" and "n + limit - 1 \<le> MaxInt"
  shows "int_quo (int_sub (int_add n limit) 1) limit = ceil_div n limit"
proof -
  have "int_sub (int_add n limit) 1 = wrap (n + limit - 1)"
    by (simp add: int_add_def int_sub_def wrap_wrap_diff)
  also have "\<dots> = n + limit - 1"
    using assms by (intro wrap_id) (simp_all add: MinInt_def)
  finally have a: "int_sub (int_add n limit) 1 = n + limit - 1" .
  have nn: "0 \<le> n + limit - 1" using assms by simp
  have q0: "0 \<le> (n + limit - 1) div limit"
    using nn assms(1) by (simp add: pos_imp_zdiv_nonneg_iff)
  have q1: "(n + limit - 1) div limit \<le> n + limit - 1"
    using nn assms(1) by (simp add: div_by_1 zdiv_mono2 [of "n + limit - 1" 1 limit, simplified])
  have "sgn (n + limit - 1) * sgn limit * (\<bar>n + limit - 1\<bar> div \<bar>limit\<bar>) = (n + limit - 1) div limit"
  proof (cases "n + limit - 1 = 0")
    case True
    then show ?thesis by simp
  next
    case False
    with nn assms(1) show ?thesis by (simp add: sgn_if)
  qed
  moreover have "wrap ((n + limit - 1) div limit) = (n + limit - 1) div limit"
    using q0 q1 assms(3) by (intro wrap_id) (simp_all add: MinInt_def)
  ultimately show ?thesis by (simp add: a int_quo_def ceil_div_def)
qed

lemma start_end_no_overflow:
  assumes "1 \<le> page" and "1 \<le> limit" and "page * limit \<le> MaxInt" and "0 \<le> n"
  shows "clamped_start page limit n = min ((page - 1) * limit) n"
    and "clamped_end page limit n = min (page * limit) n"
proof -
  have p1: "0 \<le> page - 1" "page - 1 \<le> MaxInt"
  proof -
    show "0 \<le> page - 1" using assms(1) by simp
    have "page * 1 \<le> page * limit" using assms(1,2) by (intro mult_left_mono) simp_all
    with assms(3) show "page - 1 \<le> MaxInt" by simp
  qed
  have s0: "0 \<le> (page - 1) * limit" using p1 assms(2) by simp
  have eq: "(page - 1) * limit + limit = page * limit" by (simp add: algebra_simps)
  have s1: "(page - 1) * limit \<le> MaxInt" using eq assms(2,3) by linarith
  have sub: "int_sub page 1 = page - 1"
    using p1 by (simp add: int_sub_def wrap_id MinInt_def)
  have mul: "int_mul (int_sub page 1) limit = (page - 1) * limit"
    using s0 s1 by (simp add: sub int_mul_def wrap_id MinInt_def)
  have add: "int_add (int_mul (int_sub page 1) limit) limit = page * limit"
    using s0 assms(2,3) eq by (simp add: mul int_add_def wrap_id MinInt_def)
  show "clamped_start page limit n = min ((page - 1) * limit) n"
    by (simp add: clamped_start_def mul min_def)
  show "clamped_end page limit n = min (page * limit) n"
    by (simp add: clamped_end_def add min_def)
qed

lemma slice_window:
  assumes "0 \<le> s" and "1 \<le> l" and "n = int (length xs)"
  shows "take (nat (min (s + l) n - min s n)) (drop (nat (min s n)) xs) = take (nat l) (drop (nat s) xs)"
proof (cases "s < n")
  case False
  with assms show ?thesis by (simp add: min_def)
next
  case True
  show ?thesis
  proof (cases "s + l \<le> n")
    case True
    with \<open>s < n\<close> assms show ?thesis by (simp add: min_def)
  next
    case False
    have "length (drop (nat s) xs) = nat (n - s)"
      using assms True by (simp add: nat_diff_distrib)
    moreover have "nat (n - s) \<le> nat l" using False by simp
    ultimately have "take (nat l) (drop (nat s) xs) = drop (nat s) xs"
                and "take (nat (n - s)) (drop (nat s) xs) = drop (nat s) xs"
      by simp_all
    with False True show ?thesis by (simp add: min_def)
  qed
qed

text \<open>
  As long as \<open>page * limit\<close> fits into an \<open>int\<close>, the handler returns the window of
  \<open>limit\<close> entries that starts at \<open>(page - 1) * limit\<close>, empty beyond the last entry.
\<close>

lemma paginate_no_overflow:
  assumes "1 \<le> page" and "1 \<le> limit" and "page * limit \<le> MaxInt"
  shows "paginate page limit statuses =
           Inr \<lparr>TotalPages = int_quo (int_sub (int_add (int (length statuses)) limit) 1) limit,
                CurrentPage = page,
                Data = take (nat limit) (drop (nat ((page - 1) * limit)) (sort_key URL statuses))\<rparr>"
proof -
  let ?n = "int (length statuses)"
  have se: "clamped_start page limit ?n = min ((page - 1) * limit) ?n"
           "clamped_end page limit ?n = min (page * limit) ?n"
    using assms by (simp_all add: start_end_no_overflow)
  have s0: "0 \<le> (page - 1) * limit" using assms by simp
  have eq: "page * limit = (page - 1) * limit + limit" by (simp add: algebra_simps)
  have ok: "0 \<le> clamped_start page limit ?n
            \<and> clamped_start page limit ?n \<le> clamped_end page limit ?n
            \<and> clamped_end page limit ?n \<le> ?n"
    using s0 assms(2) unfolding se eq by (simp add: min_def)
  have win: "take (nat (clamped_end page limit ?n - clamped_start page limit ?n))
               (drop (nat (clamped_start page limit ?n)) (sort_key URL statuses))
             = take (nat limit) (drop (nat ((page - 1) * limit)) (sort_key URL statuses))"
    unfolding se eq using slice_window [OF s0 assms(2), of ?n "sort_key URL statuses"] by simp
  from assms(2) have "limit \<noteq> 0" by simp
  with ok win show ?thesis by (simp add: paginate_eq)
qed

lemma statusHandler_no_overflow:
  assumes "effective_page (Get query ''page'') * effective_limit (Get query ''limit'') \<le> MaxInt"
  shows "\<exists>resp. statusHandler query statuses = Inr resp
           \<and> CurrentPage resp = effective_page (Get query ''page'')
           \<and> Data resp = take (nat (effective_limit (Get query ''limit'')))
                (drop (nat ((effective_page (Get query ''page'') - 1) * effective_limit (Get query ''limit'')))
                   (sort_key URL statuses))"
proof -
  let ?page = "effective_page (Get query ''page'')"
  let ?limit = "effective_limit (Get query ''limit'')"
  have "1 \<le> ?page" and "1 \<le> ?limit"
    using effective_page_range [of "Get query ''page''"]
          effective_limit_range [of "Get query ''limit''"] by simp_all
  from paginate_no_overflow [OF this assms, of statuses]
  show ?thesis by (simp add: statusHandler_def)
qed

lemma total_pages_is_ceiling:
  assumes "1 \<le> limit" and "int (length statuses) + limit - 1 \<le> MaxInt"
      and "paginate page limit statuses = Inr resp"
  shows "TotalPages resp = \<lceil>real (length statuses) / real_of_int limit\<rceil>"
proof -
  let ?n = "int (length statuses)"
  have "int_quo (int_sub (int_add ?n limit) 1) limit = ceil_div ?n limit"
    using assms(1) _ assms(2) by (rule total_pages_no_overflow) simp
  moreover have "ceil_div ?n limit = \<lceil>real (length statuses) / real_of_int limit\<rceil>"
    using ceil_div_is_ceiling [OF assms(1), of ?n] by simp
  ultimately show ?thesis
    using assms(3) by (simp add: paginate_Inr_fields(1))
qed

lemma total_pages_empty_store:
  assumes "1 \<le> limit" and "limit \<le> MaxInt"
  shows "\<exists>resp. paginate 1 limit [] = Inr resp \<and> TotalPages resp = 0 \<and> Data resp = []"
proof -
  have "paginate 1 limit [] =
           Inr \<lparr>TotalPages = int_quo (int_sub (int_add (int (length ([]::StatusEntry list))) limit) 1) limit,
                CurrentPage = 1,
                Data = take (nat limit) (drop (nat ((1 - 1) * limit)) (sort_key URL []))\<rparr>"
    using assms by (intro paginate_no_overflow) simp_all
  moreover have "int_quo (int_sub (int_add (int (length ([]::StatusEntry list))) limit) 1) limit
                   = ceil_div 0 limit"
    using assms by (simp add: total_pages_no_overflow)
  moreover have "ceil_div 0 limit = 0"
    using assms(1) by (simp add: ceil_div_def)
  ultimately show ?thesis by simp
qed

lemma boundary_three_items_limit_two:
  "statusHandler [(''page'', ''1''), (''limit'', ''2'')] three_sites
     = Inr \<lparr>TotalPages = 2, CurrentPage = 1,
             Data = [\<lparr>URL = ''a.com'', Status = ''up''\<rparr>, \<lparr>URL = ''b.com'', Status = ''up''\<rparr>]\<rparr>
   \<and> statusHandler [(''page'', ''2''), (''limit'', ''2'')] three_sites
     = Inr \<lparr>TotalPages = 2, CurrentPage = 2, Data = [\<lparr>URL = ''c.com'', Status = ''up''\<rparr>]\<rparr>
   \<and> statusHandler [(''page'', ''3''), (''limit'', ''2'')] three_sites
     = Inr \<lparr>TotalPages = 2, CurrentPage = 3, Data = []\<rparr>"
  by code_simp

lemma concat_windows:
  "concat (map (\<lambda>p. take l (drop ((p - 1) * l) xs)) [1..<Suc k]) = take (k * l) xs"
proof (induction k)
  case 0
  then show ?case by simp
next
  case (Suc k)
  have "concat (map (\<lambda>p. take l (drop ((p - 1) * l) xs)) [1..<Suc (Suc k)])
        = take (k * l) xs @ take l (drop (k * l) xs)"
    using Suc.IH by simp
  also have "\<dots> = take (k * l + l) xs"
    by (simp add: take_add)
  finally show ?case by (simp add: add.commute)
qed

lemma page_in_range:
  assumes "1 \<le> limit" and "limit \<le> MaxInt" and "int (length statuses) < 2 ^ 62"
      and "1 \<le> page" and "page \<le> ceil_div (int (length statuses)) limit"
  shows "page * limit \<le> MaxInt"
proof (cases "page = 1")
  case True
  with assms(2) show ?thesis by simp
next
  case False
  let ?n = "int (length statuses)"
  from False assms(4) have p2: "1 \<le> page - 1" by simp
  have "(page - 1) * limit \<le> (ceil_div ?n limit - 1) * limit"
    using assms(1,5) by (intro mult_right_mono) simp_all
  also have "\<dots> < ?n" using assms(1) by (rule ceil_div_bounds(2))
  finally have below: "(page - 1) * limit < ?n" .
  have "1 * limit \<le> (page - 1) * limit"
    using p2 assms(1) by (intro mult_right_mono) simp_all
  with below have "limit < ?n" by simp
  moreover have "page * limit = (page - 1) * limit + limit" by (simp add: algebra_simps)
  ultimately have "page * limit < 2 * ?n" using below by linarith
  with assms(3) show ?thesis by (simp add: MaxInt_def)
qed

lemma page_data_in_range:
  assumes "1 \<le> limit" and "limit \<le> MaxInt" and "int (length statuses) < 2 ^ 62"
      and "1 \<le> p" and "int p \<le> ceil_div (int (length statuses)) limit"
  shows "page_data (int p) limit statuses
           = take (nat limit) (drop ((p - 1) * nat limit) (sort_key URL statuses))"
    and "\<exists>resp. paginate (int p) limit statuses = Inr resp"
proof -
  from assms(4) have p1: "1 \<le> int p" by simp
  have "int p * limit \<le> MaxInt"
    using assms(1,2,3) p1 assms(5) by (rule page_in_range)
  note pg = paginate_no_overflow [OF p1 assms(1) this, of statuses]
  have "nat ((int p - 1) * limit) = (p - 1) * nat limit"
    using assms(1,4) by (simp add: nat_mult_distrib of_nat_diff)
  with pg show "page_data (int p) limit statuses
           = take (nat limit) (drop ((p - 1) * nat limit) (sort_key URL statuses))"
    by (simp add: page_data_def)
  from pg show "\<exists>resp. paginate (int p) limit statuses = Inr resp" by blast
qed

lemma pages_concat:
  assumes "1 \<le> limit" and "limit \<le> MaxInt" and "int (length statuses) < 2 ^ 62"
  shows "concat (map (\<lambda>p. page_data (int p) limit statuses)
           [1..<Suc (nat (ceil_div (int (length statuses)) limit))]) = sort_key URL statuses"
proof -
  let ?n = "int (length statuses)"
  let ?k = "nat (ceil_div ?n limit)"
  let ?xs = "sort_key URL statuses"
  have "map (\<lambda>p. page_data (int p) limit statuses) [1..<Suc ?k]
        = map (\<lambda>p. take (nat limit) (drop ((p - 1) * nat limit) ?xs)) [1..<Suc ?k]"
  proof (rule map_cong [OF refl])
    fix p assume "p \<in> set [1..<Suc ?k]"
    then have "1 \<le> p" and "int p \<le> ceil_div ?n limit" by auto
    with assms show "page_data (int p) limit statuses
           = take (nat limit) (drop ((p - 1) * nat limit) ?xs)"
      by (simp add: page_data_in_range(1))
  qed
  then have "concat (map (\<lambda>p. page_data (int p) limit statuses) [1..<Suc ?k])
             = take (?k * nat limit) ?xs"
    by (simp only: concat_windows)
  moreover have "length ?xs \<le> ?k * nat limit"
  proof -
    have "?n \<le> ceil_div ?n limit * limit" using assms(1) by (rule ceil_div_bounds(1))
    moreover have "0 \<le> ceil_div ?n limit"
      using assms(1) by (simp add: ceil_div_def pos_imp_zdiv_nonneg_iff)
    ultimately have "?n \<le> int (?k * nat limit)" using assms(1) by simp
    then have "length statuses \<le> ?k * nat limit" by (simp only: of_nat_le_iff)
    then show ?thesis by simp
  qed
  ultimately show ?thesis by simp
qed

lemma three_sites_facts:
  "int (length three_sites) < 2 ^ 62"
  "nat \<lceil>real (length three_sites) / real_of_int 2\<rceil> = 2"
  "sort_key URL three_sites
     = [\<lparr>URL = ''a.com'', Status = ''up''\<rparr>, \<lparr>URL = ''b.com'', Status = ''up''\<rparr>,
        \<lparr>URL = ''c.com'', Status = ''up''\<rparr>]"
  by (simp_all add: three_sites_def)

lemma upt_1_3: "[1..<Suc 2] = [1, 2]"
  by code_simp

text \<open>
  Claim C6. For every snapshot and every limit of at least 1, the pages 1 to
  \<open>ceil(total_items / limit)\<close> all return normally, and their \<open>data\<close> arrays,
  concatenated, are the snapshot sorted by URL: a sorted list with the same entries, each
  as often as in the snapshot. The number of pages is the specification's
  \<open>total_pages\<close>; the \<open>totalPages\<close> field of the response equals it whenever
  \<open>total_items + limit - 1\<close> does not overflow (last conjunct). The snapshot is shorter
  than \<open>2 ^ 62\<close> entries, as every Go slice of 32-byte entries is.
\<close>

theorem pages_concat_to_sorted_snapshot:
  assumes "1 \<le> limit" and "limit \<le> MaxInt" and "int (length statuses) < 2 ^ 62"
  shows "concat (map (\<lambda>p. page_data (int p) limit statuses)
           [1..<Suc (nat \<lceil>real (length statuses) / real_of_int limit\<rceil>)]) = sort_key URL statuses
         \<and> (\<forall>p \<in> {1..nat \<lceil>real (length statuses) / real_of_int limit\<rceil>}.
               \<exists>resp. paginate (int p) limit statuses = Inr resp)
         \<and> sorted (map URL (sort_key URL statuses))
         \<and> mset (sort_key URL statuses) = mset statuses
         \<and> (int (length statuses) + limit - 1 \<le> MaxInt \<longrightarrow>
              (\<forall>page resp. paginate page limit statuses = Inr resp \<longrightarrow>
                 TotalPages resp = \<lceil>real (length statuses) / real_of_int limit\<rceil>))"
proof -
  let ?n = "int (length statuses)"
  have c: "\<lceil>real (length statuses) / real_of_int limit\<rceil> = ceil_div ?n limit"
    using ceil_div_is_ceiling [OF assms(1), of ?n] by simp
  have 1: "concat (map (\<lambda>p. page_data (int p) limit statuses)
           [1..<Suc (nat (ceil_div ?n limit))]) = sort_key URL statuses"
    using assms by (rule pages_concat)
  have 2: "\<exists>resp. paginate (int p) limit statuses = Inr resp"
    if "p \<in> {1..nat (ceil_div ?n limit)}" for p
  proof -
    from that have "1 \<le> p" and "int p \<le> ceil_div ?n limit" by auto
    with assms show ?thesis by (simp add: page_data_in_range(2))
  qed
  have 3: "TotalPages resp = ceil_div ?n limit"
    if "?n + limit - 1 \<le> MaxInt" and "paginate page limit statuses = Inr resp" for page resp
  proof -
    have "int_quo (int_sub (int_add ?n limit) 1) limit = ceil_div ?n limit"
      using assms(1) _ that(1) by (rule total_pages_no_overflow) simp
    with that(2) show ?thesis
      by (simp add: paginate_Inr_fields(1))
  qed
  from 1 2 3 show ?thesis unfolding c by simp
qed

theorem pages_concat_to_sorted_snapshot_witness:
  "(1::int) \<le> 2 \<and> 2 \<le> MaxInt \<and> int (length three_sites) < 2 ^ 62
   \<and> page_data 1 2 three_sites @ page_data 2 2 three_sites
       = [\<lparr>URL = ''a.com'', Status = ''up''\<rparr>, \<lparr>URL = ''b.com'', Status = ''up''\<rparr>,
          \<lparr>URL = ''c.com'', Status = ''up''\<rparr>]
   \<and> mset [\<lparr>URL = ''a.com'', Status = ''up''\<rparr>, \<lparr>URL = ''b.com'', Status = ''up''\<rparr>,
          \<lparr>URL = ''c.com'', Status = ''up''\<rparr>] = mset three_sites"
proof -
  have h: "(1::int) \<le> 2" "2 \<le> MaxInt" "int (length three_sites) < 2 ^ 62"
    by (simp_all add: MaxInt_def three_sites_def)
  from pages_concat_to_sorted_snapshot [OF h]
  have "concat (map (\<lambda>p. page_data (int p) 2 three_sites) [1..<Suc 2]) = sort_key URL three_sites"
   and "mset (sort_key URL three_sites) = mset three_sites"
    unfolding three_sites_facts(2) by blast+
  then have "page_data 1 2 three_sites @ page_data 2 2 three_sites = sort_key URL three_sites"
    and "mset (sort_key URL three_sites) = mset three_sites"
    unfolding upt_1_3 by simp_all
  with h show ?thesis by (simp add: three_sites_facts(3))
qed

subsection \<open>Pagination with overflow\<close>

text \<open>
  Claim C3 fails on the code. For \<open>GET /status?page=2&limit=9223372036854775807\<close>,
  whatever the store holds, \<open>start\<close> is \<open>MaxInt\<close> and is clamped to \<open>totalItems\<close>,
  while \<open>end = start + limit\<close> wraps to \<open>-2\<close>, which the clamp from above leaves alone:
  the slice expression \<open>statuses[totalItems:-2]\<close> panics.
\<close>

theorem oversized_limit_panics:
  "statusHandler [(''page'', ''2''), (''limit'', ''9223372036854775807'')] statuses
     = Inl SliceBoundsOutOfRange"
proof -
  let ?n = "int (length statuses)"
  have p: "effective_page ''2'' = 2" and l: "effective_limit ''9223372036854775807'' = 9223372036854775807"
    by (simp_all add: effective_page_value effective_limit_value Atoi_examples)
  have s: "int_mul (int_sub 2 1) 9223372036854775807 = 9223372036854775807"
    by (simp add: int_mul_def int_sub_def wrap_def)
  have e: "int_add 9223372036854775807 9223372036854775807 = - 2"
    by (simp add: int_add_def wrap_def)
  have "clamped_end 2 9223372036854775807 ?n = - 2"
    by (simp add: clamped_end_def s e)
  moreover have "0 \<le> clamped_start 2 9223372036854775807 ?n"
    by (simp add: clamped_start_def s)
  ultimately have "paginate 2 9223372036854775807 statuses = Inl SliceBoundsOutOfRange"
    by (simp add: paginate_eq)
  then show ?thesis
    by (simp add: statusHandler_page Get_same p l)
qed

text \<open>
  The same wrap-around can also bring \<open>start\<close> back into range: for
  \<open>page=4611686018427387905\<close> and \<open>limit=4\<close> the product \<open>(page - 1) * limit\<close> is
  \<open>2 ^ 64\<close> and wraps to 0, and the handler answers with the first page.
\<close>

lemma wrapped_start_serves_first_page:
  "statusHandler [(''page'', ''4611686018427387905''), (''limit'', ''4'')] two_sites
     = Inr \<lparr>TotalPages = 1, CurrentPage = 4611686018427387905,
             Data = [\<lparr>URL = ''a.com'', Status = ''up''\<rparr>, \<lparr>URL = ''b.com'', Status = ''down''\<rparr>]\<rparr>"
  by code_simp

text \<open>
  Claim C7 fails on the code. For \<open>GET /status?limit=9223372036854775807\<close> with two
  sites in the store, \<open>totalItems + limit - 1\<close> wraps to \<open>MinInt\<close> and the division
  yields \<open>totalPages = -1\<close>, where \<open>ceil(2 / 9223372036854775807)\<close> is 1. Without the
  overflow the field is the ceiling (\<open>total_pages_is_ceiling\<close>), 0 for an empty store
  (\<open>total_pages_empty_store\<close>), and the case of three sites and limit 2 is as the claim
  says (\<open>boundary_three_items_limit_two\<close>).
\<close>

theorem total_pages_overflow:
  "statusHandler [(''limit'', ''9223372036854775807'')] two_sites
     = Inr \<lparr>TotalPages = - 1, CurrentPage = 1,
             Data = [\<lparr>URL = ''a.com'', Status = ''up''\<rparr>, \<lparr>URL = ''b.com'', Status = ''down''\<rparr>]\<rparr>
   \<and> \<lceil>real (length two_sites) / real_of_int (effective_limit ''9223372036854775807'')\<rceil> = 1"
proof -
  have "statusHandler [(''limit'', ''9223372036854775807'')] two_sites
     = Inr \<lparr>TotalPages = - 1, CurrentPage = 1,
             Data = [\<lparr>URL = ''a.com'', Status = ''up''\<rparr>, \<lparr>URL = ''b.com'', Status = ''down''\<rparr>]\<rparr>"
    by code_simp
  moreover have "effective_limit ''9223372036854775807'' = 9223372036854775807"
    by (simp add: effective_limit_value Atoi_examples)
  moreover have "\<lceil>real (length two_sites) / real_of_int 9223372036854775807\<rceil> = 1"
    by (simp add: two_sites_def)
  ultimately show ?thesis by simp
qed

section \<open>Startup\<close>

text \<open>
  Claim C9. When loading the configuration fails, because the file cannot be opened or
  because decoding it reports an error, \<open>main\<close> prints the error after its first line and
  returns: it starts neither the API server nor the monitoring loop.
\<close>

theorem config_failure_aborts_startup:
  assumes "os_Open ''config.json'' = Inl err
           \<or> (\<exists>contents c. os_Open ''config.json'' = Inr contents
                 \<and> json_Decode contents = (c, Some err))"
  shows "snd (loadConfiguration os_Open json_Decode ''config.json'') = Some err
         \<and> main os_Open json_Decode =
             [Println ''Uptime Monitor Starting...'',
              Println (''Error loading configuration: '' @ err)]
         \<and> GoStartAPIServer \<notin> set (main os_Open json_Decode)
         \<and> (\<forall>config. StartMonitoring config \<notin> set (main os_Open json_Decode))"
proof -
  from assms obtain c where load: "loadConfiguration os_Open json_Decode ''config.json'' = (c, Some err)"
    by (auto simp: loadConfiguration_def)
  then have m: "main os_Open json_Decode =
             [Println ''Uptime Monitor Starting...'',
              Println (''Error loading configuration: '' @ err)]"
    by (simp add: main_def)
  from load m show ?thesis by simp
qed

theorem config_failure_aborts_startup_witness:
  "main unreadable_fs strict_decoder =
     [Println ''Uptime Monitor Starting...'',
      Println ''Error loading configuration: open config.json: no such file or directory'']
   \<and> GoStartAPIServer \<notin> set (main unreadable_fs strict_decoder)
   \<and> main malformed_fs strict_decoder =
     [Println ''Uptime Monitor Starting...'',
      Println ''Error loading configuration: unexpected EOF'']
   \<and> GoStartAPIServer \<notin> set (main malformed_fs strict_decoder)"
  using config_failure_aborts_startup
          [of unreadable_fs "''open config.json: no such file or directory''" strict_decoder]
        config_failure_aborts_startup
          [of malformed_fs "''unexpected EOF''" strict_decoder]
  by (simp add: unreadable_fs_def malformed_fs_def strict_decoder_def)

end
